theory Spec2Isabelle
  imports Main
begin

section \<open>JavaScript strings and arrays, as far as the tools use them\<close>

text \<open>
  A JavaScript string is a sequence of UTF-16 code units. The model takes the code units
  below 256 (Latin-1), one \<^typ>\<open>char\<close> each, so a string is a \<^typ>\<open>string\<close>. The line
  terminators and white space characters above that range (U+2028, U+2029, U+FEFF and the
  Unicode space separators) are outside the model.
\<close>

abbreviation nl :: char where "nl \<equiv> CHR 0x0A"
abbreviation cr :: char where "cr \<equiv> CHR 0x0D"
abbreviation dquote :: char where "dquote \<equiv> CHR 0x22"
abbreviation backslash :: char where "backslash \<equiv> CHR 0x5C"

text \<open>The characters \<open>String.prototype.trim\<close> removes: TAB, LF, VT, FF, CR, SP, NBSP.\<close>

definition isWhiteSpace :: "char \<Rightarrow> bool" where
  "isWhiteSpace c =
     (c = CHR 0x09 \<or> c = nl \<or> c = CHR 0x0B \<or> c = CHR 0x0C \<or> c = cr \<or> c = CHR 0x20 \<or> c = CHR 0xA0)"

text \<open>The characters the regular expression atom \<open>.\<close> refuses (no \<open>s\<close> flag).\<close>

definition isLineTerminator :: "char \<Rightarrow> bool" where
  "isLineTerminator c = (c = nl \<or> c = cr)"

definition trimStart :: "string \<Rightarrow> string" where
  "trimStart s = dropWhile isWhiteSpace s"

definition trimEnd :: "string \<Rightarrow> string" where
  "trimEnd s = rev (dropWhile isWhiteSpace (rev s))"

definition trim :: "string \<Rightarrow> string" where
  "trim s = trimEnd (trimStart s)"

fun startsWith :: "string \<Rightarrow> string \<Rightarrow> bool" where
  "startsWith s [] = True"
| "startsWith [] (p # ps) = False"
| "startsWith (c # s) (p # ps) = (c = p \<and> startsWith s ps)"

text \<open>\<open>s.includes(sub)\<close>.\<close>

fun includesStr :: "string \<Rightarrow> string \<Rightarrow> bool" where
  "includesStr [] sub = (sub = [])"
| "includesStr (c # cs) sub = (startsWith (c # cs) sub \<or> includesStr cs sub)"

text \<open>\<open>s.indexOf(sub)\<close>: the first position where \<open>sub\<close> starts, \<open>-1\<close> when there is none.\<close>

definition indexShift :: "int \<Rightarrow> int" where
  "indexShift r = (if r < 0 then -1 else r + 1)"

fun indexOf :: "string \<Rightarrow> string \<Rightarrow> int" where
  "indexOf [] sub = (if sub = [] then 0 else -1)"
| "indexOf (c # cs) sub =
     (if startsWith (c # cs) sub then 0 else indexShift (indexOf cs sub))"

text \<open>
  \<open>s.split("\n")\<close>: never empty, one more element than there are line feeds. The result
  of the recursive call is never empty, so the second branch of the \<open>case\<close> is never taken.
\<close>

fun split_nl :: "string \<Rightarrow> string list" where
  "split_nl [] = [[]]"
| "split_nl (c # cs) =
     (if c = nl then [] # split_nl cs
      else (case split_nl cs of l # ls \<Rightarrow> (c # l) # ls | [] \<Rightarrow> [[c]]))"

text \<open>\<open>xs.join(sep)\<close>.\<close>

fun join :: "string \<Rightarrow> string list \<Rightarrow> string" where
  "join sep [] = []"
| "join sep [x] = x"
| "join sep (x # y # ys) = x @ sep @ join sep (y # ys)"

text \<open>\<open>s.toLowerCase()\<close> on Latin-1: A-Z, and U+00C0..U+00DE without the multiplication sign.\<close>

definition upperChars :: string where
  "upperChars = ''ABCDEFGHIJKLMNOPQRSTUVWXYZ'' @
     [CHR 0xC0, CHR 0xC1, CHR 0xC2, CHR 0xC3, CHR 0xC4, CHR 0xC5, CHR 0xC6, CHR 0xC7,
      CHR 0xC8, CHR 0xC9, CHR 0xCA, CHR 0xCB, CHR 0xCC, CHR 0xCD, CHR 0xCE, CHR 0xCF,
      CHR 0xD0, CHR 0xD1, CHR 0xD2, CHR 0xD3, CHR 0xD4, CHR 0xD5, CHR 0xD6,
      CHR 0xD8, CHR 0xD9, CHR 0xDA, CHR 0xDB, CHR 0xDC, CHR 0xDD, CHR 0xDE]"

definition lowerChars :: string where
  "lowerChars = ''abcdefghijklmnopqrstuvwxyz'' @
     [CHR 0xE0, CHR 0xE1, CHR 0xE2, CHR 0xE3, CHR 0xE4, CHR 0xE5, CHR 0xE6, CHR 0xE7,
      CHR 0xE8, CHR 0xE9, CHR 0xEA, CHR 0xEB, CHR 0xEC, CHR 0xED, CHR 0xEE, CHR 0xEF,
      CHR 0xF0, CHR 0xF1, CHR 0xF2, CHR 0xF3, CHR 0xF4, CHR 0xF5, CHR 0xF6,
      CHR 0xF8, CHR 0xF9, CHR 0xFA, CHR 0xFB, CHR 0xFC, CHR 0xFD, CHR 0xFE]"

definition toLowerChar :: "char \<Rightarrow> char" where
  "toLowerChar c = (case map_of (zip upperChars lowerChars) c of Some l \<Rightarrow> l | None \<Rightarrow> c)"

definition toLowerCase :: "string \<Rightarrow> string" where
  "toLowerCase s = map toLowerChar s"

text \<open>
  \<open>xs.slice(0, end)\<close> for an integral \<open>end\<close>: a negative \<open>end\<close> counts from the end of the
  array, and both bounds are clamped to the array.
\<close>

definition jsSlice0 :: "'a list \<Rightarrow> int \<Rightarrow> 'a list" where
  "jsSlice0 xs e =
     (let len = int (length xs);
          final = (if e < 0 then max (len + e) 0 else min e len)
      in take (nat final) xs)"

text \<open>\<open>xs.slice(start)\<close>, on arrays and on strings alike.\<close>

definition jsSliceFrom :: "'a list \<Rightarrow> int \<Rightarrow> 'a list" where
  "jsSliceFrom xs s =
     (let len = int (length xs);
          k = (if s < 0 then max (len + s) 0 else min s len)
      in drop (nat k) xs)"

text \<open>The decimal numeral of a natural number, as a template literal prints it.\<close>

fun showNat :: "nat \<Rightarrow> string" where
  "showNat n =
     (if n < 10 then [''0123456789'' ! n]
      else showNat (n div 10) @ [''0123456789'' ! (n mod 10)])"

declare showNat.simps [simp del]

section \<open>The file system\<close>

text \<open>
  What the file system holds at a path: nothing, something \<open>readFileSync\<close> throws on (a
  directory, a file without read permission) with the message of the error, or a file.
\<close>

datatype fs_entry = Missing | Unreadable string | File string

text \<open>\<open>fs.existsSync\<close> and \<open>fs.readFileSync\<close>; \<open>Inl\<close> is a thrown error with its message.\<close>

definition existsSync :: "(string \<Rightarrow> fs_entry) \<Rightarrow> string \<Rightarrow> bool" where
  "existsSync fs p = (fs p \<noteq> Missing)"

definition readFileSync :: "(string \<Rightarrow> fs_entry) \<Rightarrow> string \<Rightarrow> string + string" where
  "readFileSync fs p =
     (case fs p of
        File raw \<Rightarrow> Inr raw
      | Unreadable msg \<Rightarrow> Inl msg
      | Missing \<Rightarrow> Inl (''ENOENT: no such file or directory, open '' @ p))"

section \<open>The ignore file\<close>

text \<open>
  \<open>getCodebaseIgnoreGlobs\<close>; \<open>path.join\<close> of the Node library is a parameter. \<open>Inl\<close> is
  the error \<open>readFileSync\<close> throws, \<open>Inr None\<close> is \<open>undefined\<close>.
\<close>

definition getCodebaseIgnoreGlobs ::
  "(string \<Rightarrow> string \<Rightarrow> string) \<Rightarrow> (string \<Rightarrow> fs_entry) \<Rightarrow> string \<Rightarrow> string + string option" where
  "getCodebaseIgnoreGlobs pathJoin fs workingDir =
     (let ignorePath = pathJoin workingDir ''.codebaseignore'' in
      if \<not> existsSync fs ignorePath then Inr None
      else (case readFileSync fs ignorePath of
              Inl msg \<Rightarrow> Inl msg
            | Inr data \<Rightarrow>
               (let lines = filter (\<lambda>line. line \<noteq> [] \<and> \<not> startsWith line ''#'')
                                   (map trim (split_nl data))
                in if length lines = 0 then Inr None else Inr (Some (join '','' lines)))))"

section \<open>The summary block of getCodebase\<close>

text \<open>The filter that drops the banner lines of the packaging tool, joins and trims.\<close>

definition noiseFilter :: "string \<Rightarrow> string" where
  "noiseFilter output =
     trim (join [nl]
       (filter (\<lambda>line. \<not> includesStr line ''Repomix is now available''
                      \<and> \<not> includesStr line ''https://repomix.com''
                      \<and> \<not> includesStr (toLowerCase line) ''repomix''
                      \<and> \<not> includesStr line ''Pack your codebase into AI-friendly formats'')
               (split_nl output)))"

text \<open>
  \<open>filtered.match(/(Pack Summary:|Total Files:)/)\<close>: the text matched at the leftmost
  position where one of the two alternatives starts, the first alternative tried first.
\<close>

fun summaryStart :: "string \<Rightarrow> string option" where
  "summaryStart [] = None"
| "summaryStart (c # cs) =
     (if startsWith (c # cs) ''Pack Summary:'' then Some ''Pack Summary:''
      else if startsWith (c # cs) ''Total Files:'' then Some ''Total Files:''
      else summaryStart cs)"

definition summaryBlock :: "string \<Rightarrow> string" where
  "summaryBlock filtered =
     (case summaryStart filtered of
        Some m \<Rightarrow> trim (jsSliceFrom filtered (indexOf filtered m))
      | None \<Rightarrow> join [nl] (jsSliceFrom (split_nl (trim filtered)) (-20)))"

section \<open>The searchCodebase tool\<close>

subsection \<open>The three line patterns\<close>

text \<open>
  \<open>(.+?)\<close> followed by a literal and the end of the input: take one character that is not
  a line terminator, then stop as soon as the rest is exactly the literal, else take one more.
\<close>

fun dotPlusLazy :: "string \<Rightarrow> string \<Rightarrow> string option" where
  "dotPlusLazy closer [] = None"
| "dotPlusLazy closer (c # cs) =
     (if isLineTerminator c then None
      else if cs = closer then Some [c]
      else map_option ((#) c) (dotPlusLazy closer cs))"

text \<open>\<open>line.match(/^<file path="(.+?)">$/)\<close>: the captured group, when the line matches.\<close>

definition xmlMatch :: "string \<Rightarrow> string option" where
  \<open>xmlMatch line =
     (if startsWith line ''<file path="'' then dotPlusLazy ''">'' (drop 12 line) else None)\<close>

text \<open>
  \<open>line.match(/^# File: (.+)$/)\<close>: the greedy group takes every character up to the first
  line terminator, and \<open>$\<close> (no \<open>m\<close> flag) holds at the end of the line only.
\<close>

definition hashMatch :: "string \<Rightarrow> string option" where
  "hashMatch line =
     (if startsWith line ''# File: '' then
        (let r = drop 8 line in
         if r \<noteq> [] \<and> takeWhile (\<lambda>c. \<not> isLineTerminator c) r = r then Some r else None)
      else None)"

text \<open>\<open>line.match(/^<\/file>$/)\<close>.\<close>

definition closeMatch :: "string \<Rightarrow> bool" where
  "closeMatch line = (line = ''</file>'')"

subsection \<open>Parsing the file blocks\<close>

record FileRecord =
  path :: string
  content :: "string list"

text \<open>\<open>if (currentFile) fileBlocks.push(currentFile)\<close>: what the push adds.\<close>

fun pushCurrent :: "FileRecord option \<Rightarrow> FileRecord list" where
  "pushCurrent None = []"
| "pushCurrent (Some f) = [f]"

text \<open>
  The loop over the lines, with \<open>currentFile\<close> and \<open>fileBlocks\<close> as arguments; at the end
  of the lines the record still open is pushed.
\<close>

fun parseLoop :: "FileRecord option \<Rightarrow> FileRecord list \<Rightarrow> string list \<Rightarrow> FileRecord list" where
  "parseLoop currentFile fileBlocks [] = fileBlocks @ pushCurrent currentFile"
| "parseLoop currentFile fileBlocks (line # rest) =
     (case xmlMatch line of
        Some p \<Rightarrow>
          parseLoop (Some \<lparr>path = trim p, content = []\<rparr>) (fileBlocks @ pushCurrent currentFile) rest
      | None \<Rightarrow>
         (case hashMatch line of
            Some p \<Rightarrow>
              parseLoop (Some \<lparr>path = trim p, content = []\<rparr>) (fileBlocks @ pushCurrent currentFile) rest
          | None \<Rightarrow>
             if closeMatch line then parseLoop None (fileBlocks @ pushCurrent currentFile) rest
             else (case currentFile of
                     Some f \<Rightarrow> parseLoop (Some (f\<lparr>content := content f @ [line]\<rparr>)) fileBlocks rest
                   | None \<Rightarrow> parseLoop None fileBlocks rest)))"

definition parseFileBlocks :: "string list \<Rightarrow> FileRecord list" where
  "parseFileBlocks lines = parseLoop None [] lines"

definition parseDump :: "string \<Rightarrow> FileRecord list" where
  "parseDump raw = parseFileBlocks (split_nl raw)"

subsection \<open>Looking the requested file up\<close>

text \<open>\<open>p.replace(/^\.\//, "").replace(/\\/g, "/").trim()\<close>.\<close>

definition normalizePath :: "string \<Rightarrow> string" where
  "normalizePath p =
     trim (map (\<lambda>c. if c = backslash then CHR ''/'' else c)
            (if startsWith p ''./'' then drop 2 p else p))"

definition findFile :: "FileRecord list \<Rightarrow> string \<Rightarrow> FileRecord option" where
  "findFile fileBlocks file =
     (let requested = normalizePath file in
      case List.find (\<lambda>f. normalizePath (path f) = requested) fileBlocks of
        Some f \<Rightarrow> Some f
      | None \<Rightarrow>
          List.find (\<lambda>f. toLowerCase (normalizePath (path f)) = toLowerCase requested) fileBlocks)"

subsection \<open>The numbered snippet\<close>

text \<open>The loop that appends one rendered line per element, \<open>i\<close> counting from 0.\<close>

fun snippetLoop :: "nat \<Rightarrow> string list \<Rightarrow> string \<Rightarrow> string" where
  "snippetLoop i [] snippet = snippet"
| "snippetLoop i (l # ls) snippet =
     snippetLoop (i + 1) ls (snippet @ '' '' @ showNat (i + 1) @ '': '' @ l @ [nl])"

text \<open>
  \<open>maxLines ?? 40\<close>, the slice, the loop and the final \<open>snippet.trim()\<close>: the body that
  goes between the two tag lines of the answer.
\<close>

definition extractSnippet :: "FileRecord \<Rightarrow> int option \<Rightarrow> string" where
  "extractSnippet found maxLines =
     (let maxL = (case maxLines of None \<Rightarrow> 40 | Some m \<Rightarrow> m);
          snippetLines = jsSlice0 (content found) maxL
      in trim (snippetLoop 0 snippetLines []))"

subsection \<open>The handler\<close>

text \<open>\<open>codebase || "project.codebase"\<close>: an absent or empty parameter gives the default.\<close>

definition codebaseFileOf :: "string option \<Rightarrow> string" where
  "codebaseFileOf codebase =
     (case codebase of None \<Rightarrow> ''project.codebase''
      | Some c \<Rightarrow> if c = [] then ''project.codebase'' else c)"

text \<open>
  The body of the \<open>try\<close> block: \<open>Inl\<close> is an error thrown inside it. The parameter \<open>file\<close>
  is \<open>None\<close> when the caller left it out.
\<close>

definition searchBody :: "(string \<Rightarrow> fs_entry) \<Rightarrow> string option \<Rightarrow> string option \<Rightarrow> int option \<Rightarrow> string + string" where
  \<open>searchBody fs file codebase maxLines =
     (let codebaseFile = codebaseFileOf codebase
      in if \<not> existsSync fs codebaseFile then Inr (''Codebase file not found: '' @ codebaseFile)
         else (case file of
                 None \<Rightarrow> Inr ''Parameter 'file' is required.''
               | Some fileName \<Rightarrow>
                  if fileName = [] then Inr ''Parameter 'file' is required.''
                  else (case readFileSync fs codebaseFile of
                          Inl msg \<Rightarrow> Inl msg
                        | Inr raw \<Rightarrow>
                           (case findFile (parseDump raw) fileName of
                              None \<Rightarrow> Inr (''File "'' @ fileName @ ''" not found in codebase.'')
                            | Some found \<Rightarrow>
                                Inr (''<file path="'' @ path found @ ''">'' @ [nl]
                                     @ extractSnippet found maxLines @ [nl] @ ''</file>'')))))\<close>

text \<open>The handler: the \<open>catch\<close> turns a thrown error into a text as well.\<close>

datatype outcome = Returned string | Thrown string

definition searchCodebase :: "(string \<Rightarrow> fs_entry) \<Rightarrow> string option \<Rightarrow> string option \<Rightarrow> int option \<Rightarrow> outcome" where
  "searchCodebase fs file codebase maxLines =
     (case searchBody fs file codebase maxLines of
        Inr text \<Rightarrow> Returned text
      | Inl msg \<Rightarrow> Returned (''Error while extracting file: '' @ msg))"

section \<open>Notions the properties are stated with\<close>

text \<open>A line the parser treats as a marker: one of the two openers, or the closing tag.\<close>

definition isDelimiter :: "string \<Rightarrow> bool" where
  "isDelimiter line = (xmlMatch line \<noteq> None \<or> hashMatch line \<noteq> None \<or> closeMatch line)"

text \<open>A path value an opening marker can carry: not empty, on one line.\<close>

definition validValue :: "string \<Rightarrow> bool" where
  "validValue p = (p \<noteq> [] \<and> list_all (\<lambda>c. \<not> isLineTerminator c) p)"

text \<open>The rendering of the line with 0-based position \<open>k\<close>, and of a whole list of lines.\<close>

definition renderLine :: "nat \<Rightarrow> string \<Rightarrow> string" where
  "renderLine k l = '' '' @ showNat (k + 1) @ '': '' @ l @ [nl]"

definition renderAll :: "string list \<Rightarrow> string" where
  "renderAll ls = concat (map (\<lambda>k. renderLine k (ls ! k)) [0..<length ls])"

text \<open>One of the two summary markers starts at position \<open>i\<close> of the text.\<close>

definition markerAt :: "string \<Rightarrow> nat \<Rightarrow> bool" where
  "markerAt s i = (startsWith (drop i s) ''Pack Summary:'' \<or> startsWith (drop i s) ''Total Files:'')"

text \<open>A line of the ignore file that is blank, or whose first character after white space is \<open>#\<close>.\<close>

definition blankOrComment :: "string \<Rightarrow> bool" where
  "blankOrComment l = (case trimStart l of [] \<Rightarrow> True | c # cs \<Rightarrow> c = CHR ''#'')"

text \<open>The two comparisons of the lookup.\<close>

definition exactMatch :: "string \<Rightarrow> FileRecord \<Rightarrow> bool" where
  "exactMatch file r = (normalizePath (path r) = normalizePath file)"

definition caselessMatch :: "string \<Rightarrow> FileRecord \<Rightarrow> bool" where
  "caselessMatch file r = (toLowerCase (normalizePath (path r)) = toLowerCase (normalizePath file))"

text \<open>The same rendering by recursion on the lines, \<open>i\<close> the position of the first one.\<close>

fun renderFrom :: "nat \<Rightarrow> string list \<Rightarrow> string" where
  "renderFrom i [] = []"
| "renderFrom i (l # ls) = renderLine i l @ renderFrom (Suc i) ls"

text \<open>
  The lines of a body that reproduces \<open>ls\<close>: line \<open>k\<close> (from 0) carries the number \<open>k + 1\<close>,
  a colon and a space before its text, and every line but the first starts with a space.
\<close>

definition numberedLines :: "string list \<Rightarrow> string list" where
  "numberedLines ls =
     map (\<lambda>k. (if k = 0 then [] else '' '') @ showNat (k + 1) @ '': '' @ ls ! k) [0..<length ls]"

fun numberedFrom :: "nat \<Rightarrow> string list \<Rightarrow> string list" where
  "numberedFrom i [] = []"
| "numberedFrom i (l # ls) =
     ((if i = 0 then [] else '' '') @ showNat (i + 1) @ '': '' @ l) # numberedFrom (Suc i) ls"

section \<open>The parser keeps the records apart\<close>

lemma parseLoop_app: "parseLoop cur (b1 @ b2) ls = b1 @ parseLoop cur b2 ls"
  by (induction ls arbitrary: cur b2) (simp_all split: option.split)

lemma parseLoop_blocks: "parseLoop cur blocks ls = blocks @ parseLoop cur [] ls"
  using parseLoop_app[of cur blocks "[]" ls] by simp

lemma parseLoop_plain_Some:
  "list_all (\<lambda>l. \<not> isDelimiter l) ls \<Longrightarrow>
   parseLoop (Some f) blocks (ls @ rest) = parseLoop (Some (f\<lparr>content := content f @ ls\<rparr>)) blocks rest"
  by (induction ls arbitrary: f) (simp_all add: isDelimiter_def)

lemma parseLoop_plain_None:
  "list_all (\<lambda>l. \<not> isDelimiter l) ls \<Longrightarrow> parseLoop None blocks (ls @ rest) = parseLoop None blocks rest"
  by (induction ls) (simp_all add: isDelimiter_def)

lemma parseLoop_delim:
  "isDelimiter d \<Longrightarrow>
   parseLoop cur blocks (d # post) = (blocks @ pushCurrent cur) @ parseLoop None [] (d # post)"
  by (auto simp: isDelimiter_def parseLoop_blocks[of _ "blocks @ pushCurrent cur"] split: option.split)

lemma parseLoop_split:
  "isDelimiter d \<Longrightarrow>
   parseLoop cur blocks (pre @ d # post) = parseLoop cur blocks pre @ parseLoop None [] (d # post)"
proof (induction pre arbitrary: cur blocks)
  case Nil
  then show ?case using parseLoop_delim[of d cur blocks post] by simp
next
  case (Cons l pre)
  then show ?case by (simp split: option.split)
qed

lemma dotPlusLazy_value:
  "validValue p \<Longrightarrow> list_all (\<lambda>c. \<not> isLineTerminator c) closer \<Longrightarrow> closer \<noteq> [] \<Longrightarrow> dotPlusLazy closer (p @ closer) = Some p"
proof (induction p)
  case Nil
  then show ?case by (simp add: validValue_def)
next
  case (Cons c p)
  show ?case
  proof (cases "p = []")
    case True
    with Cons.prems show ?thesis by (simp add: validValue_def)
  next
    case False
    with Cons.prems have "validValue p" by (simp add: validValue_def)
    with Cons.IH Cons.prems have "dotPlusLazy closer (p @ closer) = Some p" by simp
    moreover have "p @ closer \<noteq> closer" using False by simp
    ultimately show ?thesis using Cons.prems by (simp add: validValue_def)
  qed
qed

lemma xmlMatch_open: \<open>validValue p \<Longrightarrow> xmlMatch (''<file path="'' @ p @ ''">'') = Some p\<close>
  using dotPlusLazy_value[of p \<open>''">''\<close>]
  by (simp add: xmlMatch_def isLineTerminator_def)

lemma hashMatch_open: "validValue p \<Longrightarrow> hashMatch (''# File: '' @ p) = Some p"
  by (simp add: hashMatch_def validValue_def list_all_iff)

lemma hashMatch_xml: \<open>hashMatch (''<file path="'' @ p) = None\<close>
  by (simp add: hashMatch_def)

lemma xmlMatch_hash: \<open>xmlMatch (''# File: '' @ p) = None\<close>
  by (simp add: xmlMatch_def)

lemma xmlMatch_close: "xmlMatch ''</file>'' = None"
  by (simp add: xmlMatch_def)

lemma hashMatch_close: "hashMatch ''</file>'' = None"
  by (simp add: hashMatch_def)

lemma xml_not_hash: "xmlMatch l = Some p \<Longrightarrow> hashMatch l = None"
proof -
  assume a: "xmlMatch l = Some p"
  then have "startsWith l ''<''"
    by (cases l) (simp_all add: xmlMatch_def split: if_splits)
  then have "\<not> startsWith l ''# File: ''"
    by (cases l) simp_all
  then show ?thesis by (simp add: hashMatch_def)
qed

lemma parse_two_files:
  assumes vp: "validValue p" and vq: "validValue q"
    and pl: "list_all (\<lambda>l. \<not> isDelimiter l) (pre @ body1 @ mid @ body2)"
  shows \<open>parseFileBlocks (pre @ [''<file path="'' @ p @ ''">''] @ body1 @ [''</file>''] @ mid
            @ [''# File: '' @ q] @ body2)
         = [\<lparr>path = trim p, content = body1\<rparr>, \<lparr>path = trim q, content = body2\<rparr>]\<close>
proof -
  let ?x = \<open>''<file path="'' @ p @ ''">''\<close>
  let ?h = "''# File: '' @ q"
  have p0: "list_all (\<lambda>l. \<not> isDelimiter l) pre" and p1: "list_all (\<lambda>l. \<not> isDelimiter l) body1"
    and p2: "list_all (\<lambda>l. \<not> isDelimiter l) mid" and p3: "list_all (\<lambda>l. \<not> isDelimiter l) body2"
    using pl by simp_all
  have "parseLoop None [] (pre @ ?x # body1 @ ''</file>'' # mid @ ?h # body2)
        = parseLoop None [] (?x # body1 @ ''</file>'' # mid @ ?h # body2)"
    using parseLoop_plain_None[OF p0] by blast
  also have "\<dots> = parseLoop (Some \<lparr>path = trim p, content = []\<rparr>) [] (body1 @ ''</file>'' # mid @ ?h # body2)"
    using xmlMatch_open[OF vp] by simp
  also have "\<dots> = parseLoop (Some \<lparr>path = trim p, content = body1\<rparr>) [] (''</file>'' # mid @ ?h # body2)"
    using parseLoop_plain_Some[OF p1, of "\<lparr>path = trim p, content = []\<rparr>"] by simp
  also have "\<dots> = parseLoop None [\<lparr>path = trim p, content = body1\<rparr>] (mid @ ?h # body2)"
    by (simp add: xmlMatch_close hashMatch_close closeMatch_def)
  also have "\<dots> = parseLoop None [\<lparr>path = trim p, content = body1\<rparr>] (?h # body2)"
    using parseLoop_plain_None[OF p2] by blast
  also have "\<dots> = parseLoop (Some \<lparr>path = trim q, content = []\<rparr>) [\<lparr>path = trim p, content = body1\<rparr>] (body2 @ [])"
    using hashMatch_open[OF vq] xmlMatch_hash[of q] by simp
  also have "\<dots> = parseLoop (Some \<lparr>path = trim q, content = body2\<rparr>) [\<lparr>path = trim p, content = body1\<rparr>] []"
    using parseLoop_plain_Some[OF p3, of "\<lparr>path = trim q, content = []\<rparr>" "[\<lparr>path = trim p, content = body1\<rparr>]" "[]"]
    by simp
  finally show ?thesis by (simp add: parseFileBlocks_def)
qed

text \<open>
  Claim C1. A line that matches one of the two opening markers or the closing tag seals
  the record that is open: for every dump and every such line \<open>d\<close> in it, the index is the
  index of the lines before \<open>d\<close> (read as a dump of their own, so with the open record
  sealed) followed by the index of the lines from \<open>d\<close> on, read from a fresh state. In
  particular a dump of one file between \<open><file path="p">\<close> and \<open></file>\<close> followed by one
  file under \<open># File: q\<close>, with no marker line among the other lines, gives exactly two
  records, with the trimmed paths and the lines of each file.
\<close>

theorem tokenizer_partitions_records:
  \<open>(\<forall>pre d post. split_nl raw = pre @ d # post \<and> isDelimiter d \<longrightarrow>
      parseDump raw = parseFileBlocks pre @ parseFileBlocks (d # post))
   \<and> (\<forall>pre p body1 mid q body2.
        split_nl raw = pre @ [''<file path="'' @ p @ ''">''] @ body1 @ [''</file>''] @ mid
                         @ [''# File: '' @ q] @ body2
        \<and> validValue p \<and> validValue q
        \<and> list_all (\<lambda>l. \<not> isDelimiter l) (pre @ body1 @ mid @ body2)
        \<longrightarrow> parseDump raw = [\<lparr>path = trim p, content = body1\<rparr>, \<lparr>path = trim q, content = body2\<rparr>])\<close>
proof (intro conjI allI impI)
  fix pre d post
  assume "split_nl raw = pre @ d # post \<and> isDelimiter d"
  then show "parseDump raw = parseFileBlocks pre @ parseFileBlocks (d # post)"
    using parseLoop_split[of d None "[]" pre post]
    by (simp add: parseDump_def parseFileBlocks_def)
next
  fix pre p body1 mid q body2
  assume a: \<open>split_nl raw = pre @ [''<file path="'' @ p @ ''">''] @ body1 @ [''</file>''] @ mid
                         @ [''# File: '' @ q] @ body2
        \<and> validValue p \<and> validValue q
        \<and> list_all (\<lambda>l. \<not> isDelimiter l) (pre @ body1 @ mid @ body2)\<close>
  then show "parseDump raw = [\<lparr>path = trim p, content = body1\<rparr>, \<lparr>path = trim q, content = body2\<rparr>]"
    using parse_two_files[of p q pre body1 mid body2]
    by (simp add: parseDump_def)
qed

lemma trim_plain_simps: "trim ''a.ts'' = ''a.ts''" "trim ''b.md'' = ''b.md''"
  by (simp_all add: trim_def trimStart_def trimEnd_def isWhiteSpace_def)

theorem tokenizer_partitions_records_witness:
  \<open>parseDump (''<file path="a.ts">'' @ [nl] @ ''x'' @ [nl] @ ''</file>'' @ [nl] @ ''# File: b.md'' @ [nl] @ ''y'')
     = parseFileBlocks [''<file path="a.ts">'', ''x''] @ parseFileBlocks [''</file>'', ''# File: b.md'', ''y'']
   \<and> parseDump (''<file path="a.ts">'' @ [nl] @ ''x'' @ [nl] @ ''</file>'' @ [nl] @ ''# File: b.md'' @ [nl] @ ''y'')
     = [\<lparr>path = ''a.ts'', content = [''x'']\<rparr>, \<lparr>path = ''b.md'', content = [''y'']\<rparr>]\<close>
proof -
  let ?raw = \<open>''<file path="a.ts">'' @ [nl] @ ''x'' @ [nl] @ ''</file>'' @ [nl] @ ''# File: b.md'' @ [nl] @ ''y''\<close>
  have s: \<open>split_nl ?raw = [''<file path="a.ts">'', ''x'', ''</file>'', ''# File: b.md'', ''y'']\<close>
    by simp
  have d: "isDelimiter ''</file>''"
    by (simp add: isDelimiter_def closeMatch_def)
  have v: "validValue ''a.ts''" "validValue ''b.md''"
    by (simp_all add: validValue_def isLineTerminator_def)
  have pl: "list_all (\<lambda>l. \<not> isDelimiter l) ([] @ [''x''] @ [] @ [''y''])"
    by (simp add: isDelimiter_def xmlMatch_def hashMatch_def closeMatch_def)
  note t = tokenizer_partitions_records[of ?raw]
  have one: \<open>parseDump ?raw
     = parseFileBlocks [''<file path="a.ts">'', ''x''] @ parseFileBlocks [''</file>'', ''# File: b.md'', ''y'']\<close>
    using t[THEN conjunct1, rule_format, of \<open>[''<file path="a.ts">'', ''x'']\<close> "''</file>''" "[''# File: b.md'', ''y'']"] s d
    by simp
  have two: \<open>parseDump ?raw = [\<lparr>path = trim ''a.ts'', content = [''x'']\<rparr>, \<lparr>path = trim ''b.md'', content = [''y'']\<rparr>]\<close>
    using t[THEN conjunct2, rule_format, of "[]" "''a.ts''" "[''x'']" "[]" "''b.md''" "[''y'']"] s v pl
    by simp
  show ?thesis using one two by (simp only: trim_plain_simps) 
qed

text \<open>
  Claim C5. When no marker line follows an opening marker, of either form, the record it
  opened is sealed at the end of the input: it is the last record of the index and its
  content is every line of the dump after the opening marker.
\<close>

theorem unclosed_record_sealed_at_end:
  assumes "split_nl raw = pre @ opener # rest"
    and "xmlMatch opener = Some p \<or> hashMatch opener = Some p"
    and "list_all (\<lambda>l. \<not> isDelimiter l) rest"
  shows "parseDump raw = parseFileBlocks pre @ [\<lparr>path = trim p, content = rest\<rparr>]
         \<and> content (last (parseDump raw)) = drop (Suc (length pre)) (split_nl raw)"
proof -
  have d: "isDelimiter opener" using assms(2) by (auto simp: isDelimiter_def)
  have "parseLoop None [] (opener # rest) = parseLoop (Some \<lparr>path = trim p, content = []\<rparr>) [] (rest @ [])"
    using assms(2) xml_not_hash[of opener] by (auto split: option.split)
  also have "\<dots> = [\<lparr>path = trim p, content = rest\<rparr>]"
    using parseLoop_plain_Some[OF assms(3), of "\<lparr>path = trim p, content = []\<rparr>" "[]" "[]"] by simp
  finally have "parseFileBlocks (opener # rest) = [\<lparr>path = trim p, content = rest\<rparr>]"
    by (simp add: parseFileBlocks_def)
  then have "parseDump raw = parseFileBlocks pre @ [\<lparr>path = trim p, content = rest\<rparr>]"
    using parseLoop_split[OF d, of None "[]" pre rest] assms(1)
    by (simp add: parseDump_def parseFileBlocks_def)
  then show ?thesis using assms(1) by simp
qed

theorem unclosed_record_sealed_at_end_witness:
  "parseDump (''intro'' @ [nl] @ ''# File: b.md'' @ [nl] @ ''y'' @ [nl] @ ''z'' @ [nl])
     = [\<lparr>path = ''b.md'', content = [''y'', ''z'', '''']\<rparr>]"
proof -
  let ?raw = "''intro'' @ [nl] @ ''# File: b.md'' @ [nl] @ ''y'' @ [nl] @ ''z'' @ [nl]"
  have s: "split_nl ?raw = [''intro''] @ ''# File: b.md'' # [''y'', ''z'', '''']"
    by simp
  have m: "xmlMatch ''# File: b.md'' = Some ''b.md'' \<or> hashMatch ''# File: b.md'' = Some ''b.md''"
    by (simp add: hashMatch_def isLineTerminator_def)
  have pl: "list_all (\<lambda>l. \<not> isDelimiter l) [''y'', ''z'', '''']"
    by (simp add: isDelimiter_def xmlMatch_def hashMatch_def closeMatch_def)
  have pre: "parseFileBlocks [''intro''] = []"
    by (simp add: parseFileBlocks_def xmlMatch_def hashMatch_def closeMatch_def)
  show ?thesis
    using unclosed_record_sealed_at_end[OF s m pl] pre by (simp only: trim_plain_simps append_Nil)
qed

section \<open>The numbered snippet\<close>

lemma showNat_nonempty: "showNat n \<noteq> []"
  by (subst showNat.simps) simp

lemma digit_nth: "n < 10 \<Longrightarrow> ''0123456789'' ! n \<in> set ''0123456789''"
  by (rule nth_mem) simp

lemma showNat_digits: "set (showNat n) \<subseteq> set ''0123456789''"
proof (induction n rule: showNat.induct)
  case (1 n)
  show ?case
  proof (cases "n < 10")
    case True
    then show ?thesis using digit_nth[of n] by (subst showNat.simps) simp
  next
    case False
    have "n mod 10 < 10" by simp
    then have "''0123456789'' ! (n mod 10) \<in> set ''0123456789''" by (rule digit_nth)
    then show ?thesis using False 1 by (subst showNat.simps) simp
  qed
qed

lemma digit_not_space: "c \<in> set ''0123456789'' \<Longrightarrow> \<not> isWhiteSpace c \<and> c \<noteq> nl"
  by (auto simp: isWhiteSpace_def)

lemma showNat_no_space: "c \<in> set (showNat n) \<Longrightarrow> \<not> isWhiteSpace c \<and> c \<noteq> nl"
  using showNat_digits digit_not_space by blast

lemma space_isWhiteSpace: "isWhiteSpace (CHR '' '')"
  by (simp add: isWhiteSpace_def)

lemma trimStart_space_showNat: "trimStart (CHR '' '' # showNat n @ rest) = showNat n @ rest"
proof -
  obtain d ds where s: "showNat n = d # ds" using showNat_nonempty by (cases "showNat n") auto
  then have "\<not> isWhiteSpace d" using showNat_no_space[of d n] by simp
  then show ?thesis using s space_isWhiteSpace by (simp add: trimStart_def)
qed

lemma trimEnd_snoc_nl: "trimEnd (s @ [nl]) = trimEnd s"
  by (simp add: trimEnd_def isWhiteSpace_def)

lemma trimEnd_id: "s = [] \<or> \<not> isWhiteSpace (last s) \<Longrightarrow> trimEnd s = s"
  by (cases s rule: rev_cases) (auto simp: trimEnd_def)

lemma trim_Nil: "trim [] = []"
  by (simp add: trim_def trimStart_def trimEnd_def)

lemma snippetLoop_renderFrom: "snippetLoop i ls s = s @ renderFrom i ls"
  by (induction ls arbitrary: i s) (simp_all add: renderLine_def)

lemma render_index_shift:
  "concat (map (\<lambda>k. renderLine (i + k) (ls ! k)) [0..<length ls]) = renderFrom i ls"
proof (induction ls arbitrary: i)
  case Nil
  show ?case by simp
next
  case (Cons l ls)
  have "[0..<length (l # ls)] = 0 # map Suc [0..<length ls]"
    by (simp add: upt_conv_Cons map_Suc_upt del: upt_Suc)
  then have "concat (map (\<lambda>k. renderLine (i + k) ((l # ls) ! k)) [0..<length (l # ls)])
        = renderLine i l @ concat (map (\<lambda>k. renderLine (Suc i + k) (ls ! k)) [0..<length ls])"
    by (simp add: comp_def del: upt_Suc)
  then show ?case using Cons.IH[of "Suc i"] by simp
qed

lemma renderAll_renderFrom: "renderAll ls = renderFrom 0 ls"
  using render_index_shift[of 0 ls] by (simp add: renderAll_def)

lemma extractSnippet_eq:
  "extractSnippet r m = trim (renderAll (jsSlice0 (content r) (case m of None \<Rightarrow> 40 | Some n \<Rightarrow> n)))"
  by (simp add: extractSnippet_def snippetLoop_renderFrom renderAll_renderFrom)

lemma jsSlice0_nonneg: "0 \<le> e \<Longrightarrow> jsSlice0 xs e = take (min (nat e) (length xs)) xs"
proof -
  assume "0 \<le> e"
  then have "nat (min e (int (length xs))) = min (nat e) (length xs)" by linarith
  then show ?thesis using \<open>0 \<le> e\<close> by (simp add: jsSlice0_def Let_def)
qed

lemma jsSlice0_neg: "e < 0 \<Longrightarrow> jsSlice0 xs e = take (length xs - nat (- e)) xs"
proof -
  assume "e < 0"
  then have "nat (max (int (length xs) + e) 0) = length xs - nat (- e)" by linarith
  then show ?thesis using \<open>e < 0\<close> by (simp add: jsSlice0_def Let_def)
qed

lemma renderFrom_Cons_trim:
  "trim (renderFrom i (l # ls)) = trimEnd (tl (renderFrom i (l # ls)))"
  by (simp add: trim_def renderLine_def trimStart_space_showNat)

lemma renderFrom_nonempty_trim: "ls \<noteq> [] \<Longrightarrow> trim (renderFrom i ls) \<noteq> []"
proof -
  assume "ls \<noteq> []"
  then obtain l ls' where ls: "ls = l # ls'" by (cases ls) auto
  obtain d ds where s: "showNat (i + 1) = d # ds" using showNat_nonempty by (cases "showNat (i + 1)") auto
  then have nd: "\<not> isWhiteSpace d" using showNat_no_space[of d "i + 1"] by simp
  have "trim (renderFrom i ls) = trimEnd (d # ds @ '': '' @ l @ [nl] @ renderFrom (Suc i) ls')"
    using ls s nd space_isWhiteSpace by (simp add: trim_def renderLine_def trimStart_def)
  also have "\<dots> \<noteq> []"
    using nd by (simp add: trimEnd_def dropWhile_append)
  finally show ?thesis .
qed

text \<open>
  Claim C3, as amended. For \<open>maxLines \<ge> 0\<close> the body is the rendering of the first
  \<open>min maxLines (length content)\<close> lines, each as \<open>" k: text\n"\<close>, trimmed at both ends:
  when at least one line is rendered the trim removes the space before the first number
  (the body is the rendering without its first character, trimmed at the end).
\<close>

theorem extract_renders_and_trims_both_ends:
  assumes "0 \<le> n"
  shows "extractSnippet r (Some n)
           = trim (renderAll (take (min (nat n) (length (content r))) (content r)))
         \<and> (0 < n \<and> content r \<noteq> [] \<longrightarrow>
              extractSnippet r (Some n)
                = trimEnd (tl (renderAll (take (min (nat n) (length (content r))) (content r)))))"
proof (intro conjI impI)
  show a: "extractSnippet r (Some n)
           = trim (renderAll (take (min (nat n) (length (content r))) (content r)))"
    using assms by (simp add: extractSnippet_eq jsSlice0_nonneg)
  assume h: "0 < n \<and> content r \<noteq> []"
  then obtain l ls where c: "content r = l # ls" by (cases "content r") auto
  from h obtain k where k: "nat n = Suc k" by (cases "nat n") auto
  have "take (min (nat n) (length (content r))) (content r) = l # take (min k (length ls)) ls"
    using c k by simp
  then show "extractSnippet r (Some n)
                = trimEnd (tl (renderAll (take (min (nat n) (length (content r))) (content r))))"
    using a renderFrom_Cons_trim[of 0 l "take (min k (length ls)) ls"]
    by (simp add: renderAll_renderFrom)
qed

theorem extract_renders_and_trims_both_ends_witness:
  "(0::int) \<le> 1 \<and> extractSnippet \<lparr>path = ''a'', content = [''x'', ''y'']\<rparr> (Some 1) = ''1: x''"
proof -
  have h: "(0::int) \<le> 1" by simp
  have e: "trim (renderAll (take (min (nat 1) (length [''x'', ''y''])) [''x'', ''y''])) = ''1: x''"
    by code_simp
  show ?thesis
    using extract_renders_and_trims_both_ends[OF h, of "\<lparr>path = ''a'', content = [''x'', ''y'']\<rparr>"] e
    by simp
qed

text \<open>
  For one line \<open>x\<close> the body is \<open>1: x\<close>, while the rendering trimmed at its end only still
  starts with the space.
\<close>

theorem extract_trailing_trim_only_counterexample:
  "extractSnippet \<lparr>path = ''a'', content = [''x'']\<rparr> (Some 1) = ''1: x''
   \<and> trimEnd (renderAll (take (min (nat 1) (length [''x''])) [''x''])) = '' 1: x''
   \<and> extractSnippet \<lparr>path = ''a'', content = [''x'']\<rparr> (Some 1)
       \<noteq> trimEnd (renderAll (take (min (nat 1) (length [''x''])) [''x'']))"
  by code_simp

text \<open>
  Claim C6. \<open>maxLines = 0\<close> gives the empty body; a \<open>maxLines\<close> above the number of content
  lines gives the body of all lines; an omitted \<open>maxLines\<close> is 40.
\<close>

theorem extract_maxLines_boundary:
  "extractSnippet r (Some 0) = []
   \<and> (int (length (content r)) < n \<longrightarrow> extractSnippet r (Some n) = trim (renderAll (content r)))
   \<and> extractSnippet r None = extractSnippet r (Some 40)"
proof (intro conjI impI)
  show "extractSnippet r (Some 0) = []"
    by (simp add: extractSnippet_eq jsSlice0_nonneg renderAll_def trim_Nil)
  show "extractSnippet r None = extractSnippet r (Some 40)"
    by (simp add: extractSnippet_eq)
  assume "int (length (content r)) < n"
  then have "0 \<le> n" and "min (nat n) (length (content r)) = length (content r)" by linarith+
  then show "extractSnippet r (Some n) = trim (renderAll (content r))"
    by (simp add: extractSnippet_eq jsSlice0_nonneg)
qed

theorem extract_maxLines_boundary_witness:
  "extractSnippet \<lparr>path = ''a'', content = [''x'', ''y'']\<rparr> (Some 5) = ''1: x'' @ [nl] @ '' 2: y''"
proof -
  have e: "trim (renderAll [''x'', ''y'']) = ''1: x'' @ [nl] @ '' 2: y''"
    by code_simp
  show ?thesis
    using extract_maxLines_boundary[of "\<lparr>path = ''a'', content = [''x'', ''y'']\<rparr>" 5] e
    by simp
qed

text \<open>
  Claim C10, as amended. A negative \<open>maxLines\<close> drops the last \<open>|maxLines|\<close> lines and
  numbers the remaining ones from 1, and no error is raised. The body is not empty when
  \<open>|maxLines|\<close> is below the number of content lines, and it is empty when \<open>|maxLines|\<close>
  reaches that number, since then no line remains.
\<close>

theorem extract_negative_maxLines:
  assumes "n < 0"
  shows "extractSnippet r (Some n)
           = trim (renderAll (take (length (content r) - nat (- n)) (content r)))
         \<and> (nat (- n) < length (content r) \<longrightarrow> extractSnippet r (Some n) \<noteq> [])
         \<and> (length (content r) \<le> nat (- n) \<longrightarrow> extractSnippet r (Some n) = [])"
proof (intro conjI impI)
  show a: "extractSnippet r (Some n)
           = trim (renderAll (take (length (content r) - nat (- n)) (content r)))"
    using assms by (simp add: extractSnippet_eq jsSlice0_neg)
  {
    assume "nat (- n) < length (content r)"
    then have "take (length (content r) - nat (- n)) (content r) \<noteq> []" by auto
    then show "extractSnippet r (Some n) \<noteq> []"
      using a renderFrom_nonempty_trim[of "take (length (content r) - nat (- n)) (content r)" 0]
      by (simp add: renderAll_renderFrom)
  }
  {
    assume "length (content r) \<le> nat (- n)"
    then have "take (length (content r) - nat (- n)) (content r) = []" by simp
    then have "renderAll (take (length (content r) - nat (- n)) (content r)) = []"
      by (simp only: renderAll_renderFrom renderFrom.simps)
    then show "extractSnippet r (Some n) = []"
      by (simp only: a trim_Nil)
  }
qed

theorem extract_negative_maxLines_witness:
  "(-1::int) < 0
   \<and> extractSnippet \<lparr>path = ''a'', content = [''x'', ''y'', ''z'']\<rparr> (Some (-1)) = ''1: x'' @ [nl] @ '' 2: y''
   \<and> extractSnippet \<lparr>path = ''a'', content = [''x'', ''y'', ''z'']\<rparr> (Some (-1)) \<noteq> []
   \<and> extractSnippet \<lparr>path = ''a'', content = [''x'', ''y'', ''z'']\<rparr> (Some (-3)) = []"
proof -
  let ?r = "\<lparr>path = ''a'', content = [''x'', ''y'', ''z'']\<rparr>"
  have h: "(-1::int) < 0" and h3: "(-3::int) < 0" by simp_all
  have e: "trim (renderAll (take (length [''x'', ''y'', ''z''] - nat (- (-1))) [''x'', ''y'', ''z'']))
             = ''1: x'' @ [nl] @ '' 2: y''"
    by code_simp
  have l1: "nat (- (-1)) < length (content ?r)" by simp
  have l3: "length (content ?r) \<le> nat (- (-3))" by simp
  have r1: "extractSnippet ?r (Some (-1)) = ''1: x'' @ [nl] @ '' 2: y''"
    using extract_negative_maxLines[OF h, of ?r, THEN conjunct1] e by simp
  have r2: "extractSnippet ?r (Some (-1)) \<noteq> []"
    using extract_negative_maxLines[OF h, of ?r, THEN conjunct2, THEN conjunct1] l1 by blast
  have r3: "extractSnippet ?r (Some (-3)) = []"
    using extract_negative_maxLines[OF h3, of ?r, THEN conjunct2, THEN conjunct2] l3 by blast
  show ?thesis using h r1 r2 r3 by blast
qed

text \<open>
  A record with the one content line \<open>x\<close> and \<open>maxLines = -1\<close>: the content is not empty,
  the slice keeps no line and the body is empty.
\<close>

theorem extract_negative_maxLines_empty_body_counterexample:
  "content \<lparr>path = ''a'', content = [''x'']\<rparr> \<noteq> []
   \<and> (-1::int) < 0
   \<and> extractSnippet \<lparr>path = ''a'', content = [''x'']\<rparr> (Some (-1)) = []"
  by (simp add: extractSnippet_def jsSlice0_def trim_def trimStart_def trimEnd_def)

lemma numbered_index_shift:
  "map (\<lambda>k. (if i + k = 0 then [] else '' '') @ showNat (i + k + 1) @ '': '' @ ls ! k) [0..<length ls]
     = numberedFrom i ls"
proof (induction ls arbitrary: i)
  case Nil
  show ?case by simp
next
  case (Cons l ls)
  have u: "[0..<Suc (length ls)] = 0 # map Suc [0..<length ls]"
    by (simp add: upt_conv_Cons map_Suc_upt del: upt_Suc)
  show ?case
    using Cons.IH[of "Suc i"] by (simp add: u comp_def del: upt_Suc)
qed

lemma numberedLines_numberedFrom: "numberedLines ls = numberedFrom 0 ls"
  using numbered_index_shift[of 0 ls] by (simp add: numberedLines_def)

lemma length_numberedFrom: "length (numberedFrom i ls) = length ls"
  by (induction ls arbitrary: i) simp_all

lemma renderFrom_Suc: "renderFrom (Suc i) ls = concat (map (\<lambda>x. x @ [nl]) (numberedFrom (Suc i) ls))"
  by (induction ls arbitrary: i) (simp_all add: renderLine_def)

lemma renderFrom_0_Cons:
  "renderFrom 0 (l # ls) = CHR '' '' # concat (map (\<lambda>x. x @ [nl]) (numberedFrom 0 (l # ls)))"
  by (simp add: renderLine_def renderFrom_Suc)

lemma concat_nl_join: "ys \<noteq> [] \<Longrightarrow> concat (map (\<lambda>x. x @ [nl]) ys) = join [nl] ys @ [nl]"
  by (induction "[nl]" ys rule: join.induct) simp_all

lemma trim_render_join: "trim (renderAll ls) = trimEnd (join [nl] (numberedLines ls))"
proof (cases ls)
  case Nil
  then show ?thesis
    by (simp add: renderAll_renderFrom numberedLines_numberedFrom trim_Nil trimEnd_def)
next
  case (Cons l ls')
  have "trim (renderFrom 0 (l # ls')) = trimEnd (tl (renderFrom 0 (l # ls')))"
    by (rule renderFrom_Cons_trim)
  also have "\<dots> = trimEnd (concat (map (\<lambda>x. x @ [nl]) (numberedFrom 0 (l # ls'))))"
    by (simp only: renderFrom_0_Cons list.sel)
  also have "\<dots> = trimEnd (join [nl] (numberedFrom 0 (l # ls')) @ [nl])"
    using concat_nl_join[of "numberedFrom 0 (l # ls')"] by simp
  also have "\<dots> = trimEnd (join [nl] (numberedFrom 0 (l # ls')))"
    by (rule trimEnd_snoc_nl)
  finally show ?thesis using Cons by (simp add: renderAll_renderFrom numberedLines_numberedFrom)
qed

lemma join_last: "ys \<noteq> [] \<Longrightarrow> last ys \<noteq> [] \<Longrightarrow> join sep ys \<noteq> [] \<and> last (join sep ys) = last (last ys)"
  by (induction sep ys rule: join.induct) simp_all

lemma numberedFrom_last:
  "ls \<noteq> [] \<Longrightarrow> last ls \<noteq> [] \<Longrightarrow>
   last (numberedFrom i ls) \<noteq> [] \<and> last (last (numberedFrom i ls)) = last (last ls)"
proof (induction ls arbitrary: i)
  case Nil
  then show ?case by simp
next
  case (Cons l ls)
  show ?case
  proof (cases "ls = []")
    case True
    then show ?thesis using Cons.prems by simp
  next
    case False
    then have n: "numberedFrom (Suc i) ls \<noteq> []" by (cases ls) simp_all
    show ?thesis using Cons.IH[of "Suc i"] Cons.prems False n by simp
  qed
qed

lemma split_nl_nonempty: "split_nl s \<noteq> []"
  by (induction s) (simp_all split: list.split)

lemma split_nl_line: "nl \<notin> set l \<Longrightarrow> split_nl l = [l]"
  by (induction l) auto

lemma split_nl_append: "nl \<notin> set l \<Longrightarrow> split_nl (l @ nl # rest) = l # split_nl rest"
  by (induction l) auto

lemma split_nl_join:
  "ys \<noteq> [] \<Longrightarrow> \<forall>y\<in>set ys. nl \<notin> set y \<Longrightarrow> split_nl (join [nl] ys) = ys"
proof (induction "[nl]" ys rule: join.induct)
  case 1
  then show ?case by simp
next
  case (2 x)
  then show ?case by (simp add: split_nl_line)
next
  case (3 x y ys)
  then show ?case using split_nl_append[of x "join [nl] (y # ys)"] by simp
qed

lemma split_nl_no_nl: "l \<in> set (split_nl s) \<Longrightarrow> nl \<notin> set l"
proof (induction s arbitrary: l)
  case Nil
  then show ?case by simp
next
  case (Cons c s)
  show ?case
  proof (cases "c = nl")
    case True
    then show ?thesis using Cons by auto
  next
    case False
    obtain h t where ht: "split_nl s = h # t" using split_nl_nonempty[of s] by (cases "split_nl s") auto
    then have "nl \<notin> set h" and "\<forall>x\<in>set t. nl \<notin> set x" using Cons.IH by simp_all
    then show ?thesis using Cons.prems False ht by auto
  qed
qed

lemma numberedFrom_no_nl:
  "\<forall>l\<in>set ls. nl \<notin> set l \<Longrightarrow> \<forall>y\<in>set (numberedFrom i ls). nl \<notin> set y"
proof (induction ls arbitrary: i)
  case Nil
  show ?case by simp
next
  case (Cons l ls)
  have "nl \<notin> set (showNat (i + 1))" using showNat_no_space by blast
  then show ?case using Cons by simp
qed

lemma parseLoop_content_lines:
  "\<forall>r\<in>set blocks. set (content r) \<subseteq> S \<Longrightarrow> (\<forall>f. cur = Some f \<longrightarrow> set (content f) \<subseteq> S) \<Longrightarrow>
   set ls \<subseteq> S \<Longrightarrow> \<forall>r\<in>set (parseLoop cur blocks ls). set (content r) \<subseteq> S"
proof (induction ls arbitrary: cur blocks)
  case Nil
  then show ?case by (cases cur) auto
next
  case (Cons l ls)
  have b: "\<forall>r\<in>set (blocks @ pushCurrent cur). set (content r) \<subseteq> S"
    using Cons.prems by (cases cur) auto
  have ls: "set ls \<subseteq> S" and l: "l \<in> S" using Cons.prems by auto
  have fresh: "\<And>p. \<forall>f. Some \<lparr>path = p, content = []\<rparr> = Some f \<longrightarrow> set (content f) \<subseteq> S"
    by auto
  have none: "\<forall>f. (None :: FileRecord option) = Some f \<longrightarrow> set (content f) \<subseteq> S"
    by simp
  consider (xml) p where "xmlMatch l = Some p"
    | (hash) p where "xmlMatch l = None" "hashMatch l = Some p"
    | (close) "xmlMatch l = None" "hashMatch l = None" "closeMatch l"
    | (plainN) "xmlMatch l = None" "hashMatch l = None" "\<not> closeMatch l" "cur = None"
    | (plainS) f where "xmlMatch l = None" "hashMatch l = None" "\<not> closeMatch l" "cur = Some f"
    by (cases "xmlMatch l"; cases "hashMatch l"; cases "closeMatch l"; cases cur) auto
  then show ?case
  proof cases
    case xml
    then have "parseLoop cur blocks (l # ls)
        = parseLoop (Some \<lparr>path = trim p, content = []\<rparr>) (blocks @ pushCurrent cur) ls" by simp
    then show ?thesis using Cons.IH[OF b fresh ls] by presburger
  next
    case hash
    then have "parseLoop cur blocks (l # ls)
        = parseLoop (Some \<lparr>path = trim p, content = []\<rparr>) (blocks @ pushCurrent cur) ls" by simp
    then show ?thesis using Cons.IH[OF b fresh ls] by presburger
  next
    case close
    then have "parseLoop cur blocks (l # ls) = parseLoop None (blocks @ pushCurrent cur) ls" by simp
    then show ?thesis using Cons.IH[OF b none ls] by presburger
  next
    case plainN
    then have "parseLoop cur blocks (l # ls) = parseLoop None blocks ls" by simp
    then show ?thesis using Cons.IH[OF Cons.prems(1) none ls] by presburger
  next
    case plainS
    then have step: "parseLoop cur blocks (l # ls)
        = parseLoop (Some (f\<lparr>content := content f @ [l]\<rparr>)) blocks ls" by simp
    have "set (content f) \<subseteq> S" using Cons.prems(2) plainS by simp
    then have "\<forall>g. Some (f\<lparr>content := content f @ [l]\<rparr>) = Some g \<longrightarrow> set (content g) \<subseteq> S"
      using l by auto
    then show ?thesis using step Cons.IH[OF Cons.prems(1) _ ls] by presburger
  qed
qed

lemma parseDump_lines_no_nl:
  assumes "r \<in> set (parseDump raw)"
  shows "\<forall>l\<in>set (content r). nl \<notin> set l"
proof -
  have "\<forall>r\<in>set (parseLoop None [] (split_nl raw)). set (content r) \<subseteq> set (split_nl raw)"
    by (rule parseLoop_content_lines) simp_all
  then have "set (content r) \<subseteq> set (split_nl raw)"
    using assms by (simp add: parseDump_def parseFileBlocks_def)
  then show ?thesis using split_nl_no_nl by blast
qed

text \<open>
  Claim C2, as amended. For a record of a parsed dump with content \<open>L\<close>, the body for
  \<open>maxLines = length L\<close> is the numbered lines of \<open>L\<close> joined by line feeds, with the white
  space at the very end trimmed; when the last line of \<open>L\<close> ends in a character that is not
  white space, splitting the body at the line feeds gives back exactly the numbered lines
  of \<open>L\<close>, in order.
\<close>

theorem roundtrip_up_to_final_trim:
  assumes "r \<in> set (parseDump raw)"
  shows "extractSnippet r (Some (int (length (content r))))
           = trimEnd (join [nl] (numberedLines (content r)))
         \<and> (content r \<noteq> [] \<and> last (content r) \<noteq> [] \<and> \<not> isWhiteSpace (last (last (content r))) \<longrightarrow>
              split_nl (extractSnippet r (Some (int (length (content r))))) = numberedLines (content r))"
proof (intro conjI impI)
  show a: "extractSnippet r (Some (int (length (content r))))
           = trimEnd (join [nl] (numberedLines (content r)))"
    using trim_render_join[of "content r"] by (simp add: extractSnippet_eq jsSlice0_nonneg)
  assume h: "content r \<noteq> [] \<and> last (content r) \<noteq> [] \<and> \<not> isWhiteSpace (last (last (content r)))"
  let ?ys = "numberedLines (content r)"
  have ne: "?ys \<noteq> []"
    using h length_numberedFrom[of 0 "content r"] by (auto simp: numberedLines_numberedFrom)
  have "last ?ys \<noteq> [] \<and> last (last ?ys) = last (last (content r))"
    using h numberedFrom_last[of "content r" 0] by (simp add: numberedLines_numberedFrom)
  then have "\<not> isWhiteSpace (last (join [nl] ?ys))"
    using h ne join_last[of ?ys "[nl]"] by simp
  then have "trimEnd (join [nl] ?ys) = join [nl] ?ys"
    using trimEnd_id by blast
  moreover have "\<forall>y\<in>set ?ys. nl \<notin> set y"
    using numberedFrom_no_nl[OF parseDump_lines_no_nl[OF assms], of 0]
    by (simp add: numberedLines_numberedFrom)
  ultimately show "split_nl (extractSnippet r (Some (int (length (content r))))) = numberedLines (content r)"
    using a ne split_nl_join[of ?ys] by simp
qed

theorem roundtrip_up_to_final_trim_witness:
  "split_nl (extractSnippet \<lparr>path = ''a'', content = [''x'', ''y'']\<rparr> (Some 2)) = [''1: x'', '' 2: y'']"
proof -
  let ?r = "\<lparr>path = ''a'', content = [''x'', ''y'']\<rparr>"
  have p: "parseDump (''# File: a'' @ [nl] @ ''x'' @ [nl] @ ''y'') = [?r]"
    by (simp add: parseDump_def parseFileBlocks_def xmlMatch_def hashMatch_def closeMatch_def
          isLineTerminator_def trim_def trimStart_def trimEnd_def isWhiteSpace_def)
  then have m: "?r \<in> set (parseDump (''# File: a'' @ [nl] @ ''x'' @ [nl] @ ''y''))"
    by simp
  have c: "content ?r \<noteq> [] \<and> last (content ?r) \<noteq> [] \<and> \<not> isWhiteSpace (last (last (content ?r)))"
    by (simp add: isWhiteSpace_def)
  have n: "numberedLines (content ?r) = [''1: x'', '' 2: y'']"
    by code_simp
  have "split_nl (extractSnippet ?r (Some (int (length (content ?r))))) = numberedLines (content ?r)"
    using roundtrip_up_to_final_trim[OF m, THEN conjunct2] c by blast
  then show ?thesis using n by simp
qed

text \<open>
  A last line \<open>"x "\<close> loses its final space: the body is \<open>1: x\<close> and the text of the line
  does not occur in it.
\<close>

theorem roundtrip_last_line_counterexample:
  "parseDump (''# File: a'' @ [nl] @ ''x '') = [\<lparr>path = ''a'', content = [''x '']\<rparr>]
   \<and> extractSnippet \<lparr>path = ''a'', content = [''x '']\<rparr> (Some 1) = ''1: x''
   \<and> \<not> includesStr (extractSnippet \<lparr>path = ''a'', content = [''x '']\<rparr> (Some 1)) ''x ''"
proof -
  have p: "parseDump (''# File: a'' @ [nl] @ ''x '') = [\<lparr>path = ''a'', content = [''x '']\<rparr>]"
    by (simp add: parseDump_def parseFileBlocks_def xmlMatch_def hashMatch_def closeMatch_def
          isLineTerminator_def trim_def trimStart_def trimEnd_def isWhiteSpace_def)
  have e: "extractSnippet \<lparr>path = ''a'', content = [''x '']\<rparr> (Some 1) = ''1: x''"
    by code_simp
  have i: "\<not> includesStr ''1: x'' ''x ''"
    by simp
  show ?thesis using p e i by simp
qed

section \<open>The lookup\<close>

lemma normalizePath_strip: "normalizePath (''./'' @ p) = trim (map (\<lambda>c. if c = backslash then CHR ''/'' else c) p)"
  by (simp add: normalizePath_def)

lemma trimStart_subset: "set (trimStart s) \<subseteq> set s"
  using set_dropWhileD by (fastforce simp: trimStart_def)

lemma trimEnd_subset: "set (trimEnd s) \<subseteq> set s"
proof
  fix c assume "c \<in> set (trimEnd s)"
  then have "c \<in> set (dropWhile isWhiteSpace (rev s))" by (simp add: trimEnd_def)
  then have "c \<in> set (rev s)" by (rule set_dropWhileD)
  then show "c \<in> set s" by simp
qed

lemma trim_subset: "set (trim s) \<subseteq> set s"
  using trimStart_subset trimEnd_subset unfolding trim_def by blast

lemma normalizePath_no_backslash: "backslash \<notin> set (normalizePath p)"
proof -
  have "backslash \<notin> set (map (\<lambda>c. if c = backslash then CHR ''/'' else c) q)" for q
    by auto
  then show ?thesis using trim_subset unfolding normalizePath_def by blast
qed

text \<open>
  Claim C4. The lookup compares normalized paths (one leading \<open>./\<close> removed, every
  backslash turned into a slash, the result trimmed). The first record, in the order of
  the index, whose normalized path equals the normalized request is returned; when no
  record matches exactly, the first record that matches without regard to case; when no
  record matches either way, nothing.
\<close>

theorem findFile_two_passes:
  "(\<forall>i. i < length idx \<and> exactMatch file (idx ! i) \<and> (\<forall>j<i. \<not> exactMatch file (idx ! j))
        \<longrightarrow> findFile idx file = Some (idx ! i))
   \<and> (\<forall>i. (\<forall>r\<in>set idx. \<not> exactMatch file r)
          \<and> i < length idx \<and> caselessMatch file (idx ! i) \<and> (\<forall>j<i. \<not> caselessMatch file (idx ! j))
        \<longrightarrow> findFile idx file = Some (idx ! i))
   \<and> ((\<forall>r\<in>set idx. \<not> exactMatch file r \<and> \<not> caselessMatch file r) \<longrightarrow> findFile idx file = None)
   \<and> normalizePath (''./'' @ p) = trim (map (\<lambda>c. if c = backslash then CHR ''/'' else c) p)
   \<and> (\<not> startsWith p ''./'' \<longrightarrow>
        normalizePath p = trim (map (\<lambda>c. if c = backslash then CHR ''/'' else c) p))
   \<and> backslash \<notin> set (normalizePath p)"
proof (intro conjI allI impI)
  fix i
  assume "i < length idx \<and> exactMatch file (idx ! i) \<and> (\<forall>j<i. \<not> exactMatch file (idx ! j))"
  then have "List.find (\<lambda>f. normalizePath (path f) = normalizePath file) idx = Some (idx ! i)"
    unfolding find_Some_iff exactMatch_def by blast
  then show "findFile idx file = Some (idx ! i)"
    by (simp add: findFile_def)
next
  fix i
  assume a: "(\<forall>r\<in>set idx. \<not> exactMatch file r)
          \<and> i < length idx \<and> caselessMatch file (idx ! i) \<and> (\<forall>j<i. \<not> caselessMatch file (idx ! j))"
  then have "List.find (\<lambda>f. normalizePath (path f) = normalizePath file) idx = None"
    unfolding find_None_iff exactMatch_def by blast
  moreover have "List.find (\<lambda>f. toLowerCase (normalizePath (path f)) = toLowerCase (normalizePath file)) idx
                   = Some (idx ! i)"
    using a unfolding find_Some_iff caselessMatch_def by blast
  ultimately show "findFile idx file = Some (idx ! i)"
    by (simp add: findFile_def)
next
  assume a: "\<forall>r\<in>set idx. \<not> exactMatch file r \<and> \<not> caselessMatch file r"
  then have "List.find (\<lambda>f. normalizePath (path f) = normalizePath file) idx = None"
    unfolding find_None_iff exactMatch_def by blast
  moreover have "List.find (\<lambda>f. toLowerCase (normalizePath (path f)) = toLowerCase (normalizePath file)) idx
                   = None"
    using a unfolding find_None_iff caselessMatch_def by blast
  ultimately show "findFile idx file = None"
    by (simp add: findFile_def)
next
  show "normalizePath (''./'' @ p) = trim (map (\<lambda>c. if c = backslash then CHR ''/'' else c) p)"
    by (rule normalizePath_strip)
next
  assume "\<not> startsWith p ''./''"
  then show "normalizePath p = trim (map (\<lambda>c. if c = backslash then CHR ''/'' else c) p)"
    by (simp add: normalizePath_def)
next
  show "backslash \<notin> set (normalizePath p)"
    by (rule normalizePath_no_backslash)
qed

lemma trim_examples:
  "trim ''src/a.ts'' = ''src/a.ts''" "trim ''SRC/A.ts'' = ''SRC/A.ts''" "trim ''lib/b.ts'' = ''lib/b.ts''"
  "trim ''zzz'' = ''zzz''"
  by (simp_all add: trim_def trimStart_def trimEnd_def isWhiteSpace_def)

lemma normalizePath_examples:
  "normalizePath ''src/a.ts'' = ''src/a.ts''"
  "normalizePath ''SRC/A.ts'' = ''SRC/A.ts''"
  "normalizePath ''lib/b.ts'' = ''lib/b.ts''"
  "normalizePath ''zzz'' = ''zzz''"
  by (simp_all add: normalizePath_def trim_examples)

lemma toLowerCase_examples:
  "toLowerCase ''src/a.ts'' = ''src/a.ts''"
  "toLowerCase ''SRC/A.ts'' = ''src/a.ts''"
  "toLowerCase ''lib/b.ts'' = ''lib/b.ts''"
  "toLowerCase ''zzz'' = ''zzz''"
  by (simp_all add: toLowerCase_def toLowerChar_def upperChars_def lowerChars_def)

theorem findFile_two_passes_witness:
  "findFile [\<lparr>path = ''SRC/A.ts'', content = []\<rparr>, \<lparr>path = ''src/a.ts'', content = [''x'']\<rparr>]
            (''./src'' @ [backslash] @ ''a.ts'')
     = Some \<lparr>path = ''src/a.ts'', content = [''x'']\<rparr>
   \<and> findFile [\<lparr>path = ''lib/b.ts'', content = []\<rparr>, \<lparr>path = ''SRC/A.ts'', content = [''y'']\<rparr>] ''src/a.ts''
     = Some \<lparr>path = ''SRC/A.ts'', content = [''y'']\<rparr>
   \<and> findFile [\<lparr>path = ''lib/b.ts'', content = []\<rparr>, \<lparr>path = ''SRC/A.ts'', content = [''y'']\<rparr>] ''zzz''
     = None"
proof -
  let ?i1 = "[\<lparr>path = ''SRC/A.ts'', content = []\<rparr>, \<lparr>path = ''src/a.ts'', content = [''x'']\<rparr>]"
  let ?i2 = "[\<lparr>path = ''lib/b.ts'', content = []\<rparr>, \<lparr>path = ''SRC/A.ts'', content = [''y'']\<rparr>]"
  let ?f1 = "''./src'' @ [backslash] @ ''a.ts''"
  have h1: "1 < length ?i1 \<and> exactMatch ?f1 (?i1 ! 1) \<and> (\<forall>j<1. \<not> exactMatch ?f1 (?i1 ! j))"
    by (simp add: exactMatch_def normalizePath_def trim_examples)
  have h2: "(\<forall>r\<in>set ?i2. \<not> exactMatch ''src/a.ts'' r)
          \<and> 1 < length ?i2 \<and> caselessMatch ''src/a.ts'' (?i2 ! 1) \<and> (\<forall>j<1. \<not> caselessMatch ''src/a.ts'' (?i2 ! j))"
    by (simp add: exactMatch_def caselessMatch_def normalizePath_examples toLowerCase_examples)
  have h3: "\<forall>r\<in>set ?i2. \<not> exactMatch ''zzz'' r \<and> \<not> caselessMatch ''zzz'' r"
    by (simp add: exactMatch_def caselessMatch_def normalizePath_examples toLowerCase_examples)
  have r1: "findFile ?i1 ?f1 = Some (?i1 ! 1)"
    using findFile_two_passes[of ?i1 ?f1, THEN conjunct1] h1 by blast
  have r2: "findFile ?i2 ''src/a.ts'' = Some (?i2 ! 1)"
    using findFile_two_passes[of ?i2 "''src/a.ts''", THEN conjunct2, THEN conjunct1] h2 by blast
  have r3: "findFile ?i2 ''zzz'' = None"
    using findFile_two_passes[of ?i2 "''zzz''", THEN conjunct2, THEN conjunct2, THEN conjunct1] h3 by blast
  show ?thesis using r1 r2 r3 by simp
qed

section \<open>The handler always answers with a text\<close>

text \<open>
  Claim C8. Whatever the file system holds and whatever the parameters are, the handler
  returns a text and throws nothing. A codebase file that does not exist gives the message
  with its path; with the file there, a missing or empty \<open>file\<close> parameter gives the message
  that it is required; with a file name, a dump without a matching record gives the
  \<open>not found\<close> message; an error thrown while reading gives the message of the error
  after a fixed prefix.
\<close>

theorem searchCodebase_always_text:
  \<open>(\<exists>answer. searchCodebase fs file codebase maxLines = Returned answer)
   \<and> (\<not> existsSync fs (codebaseFileOf codebase) \<longrightarrow>
        searchCodebase fs file codebase maxLines
          = Returned (''Codebase file not found: '' @ codebaseFileOf codebase))
   \<and> (existsSync fs (codebaseFileOf codebase) \<and> (file = None \<or> file = Some []) \<longrightarrow>
        searchCodebase fs file codebase maxLines = Returned ''Parameter 'file' is required.'')
   \<and> (\<forall>name raw. existsSync fs (codebaseFileOf codebase) \<and> file = Some name \<and> name \<noteq> []
          \<and> readFileSync fs (codebaseFileOf codebase) = Inr raw
          \<and> findFile (parseDump raw) name = None \<longrightarrow>
        searchCodebase fs file codebase maxLines
          = Returned (''File "'' @ name @ ''" not found in codebase.''))
   \<and> (\<forall>name msg. existsSync fs (codebaseFileOf codebase) \<and> file = Some name \<and> name \<noteq> []
          \<and> readFileSync fs (codebaseFileOf codebase) = Inl msg \<longrightarrow>
        searchCodebase fs file codebase maxLines
          = Returned (''Error while extracting file: '' @ msg))\<close>
proof (intro conjI allI impI)
  show "\<exists>answer. searchCodebase fs file codebase maxLines = Returned answer"
    by (cases "searchBody fs file codebase maxLines") (simp_all add: searchCodebase_def)
next
  assume "\<not> existsSync fs (codebaseFileOf codebase)"
  then show "searchCodebase fs file codebase maxLines
          = Returned (''Codebase file not found: '' @ codebaseFileOf codebase)"
    by (simp add: searchCodebase_def searchBody_def)
next
  assume "existsSync fs (codebaseFileOf codebase) \<and> (file = None \<or> file = Some [])"
  then show "searchCodebase fs file codebase maxLines = Returned ''Parameter 'file' is required.''"
    by (auto simp: searchCodebase_def searchBody_def)
next
  fix name raw
  assume "existsSync fs (codebaseFileOf codebase) \<and> file = Some name \<and> name \<noteq> []
          \<and> readFileSync fs (codebaseFileOf codebase) = Inr raw
          \<and> findFile (parseDump raw) name = None"
  then show \<open>searchCodebase fs file codebase maxLines
          = Returned (''File "'' @ name @ ''" not found in codebase.'')\<close>
    by (simp add: searchCodebase_def searchBody_def)
next
  fix name msg
  assume "existsSync fs (codebaseFileOf codebase) \<and> file = Some name \<and> name \<noteq> []
          \<and> readFileSync fs (codebaseFileOf codebase) = Inl msg"
  then show "searchCodebase fs file codebase maxLines
          = Returned (''Error while extracting file: '' @ msg)"
    by (simp add: searchCodebase_def searchBody_def)
qed

theorem searchCodebase_always_text_witness:
  \<open>searchCodebase (\<lambda>p. if p = ''project.codebase'' then File ''# File: a''
                         else if p = ''dir'' then Unreadable ''EISDIR'' else Missing)
      (Some ''b'') (Some ''nope'') None
     = Returned ''Codebase file not found: nope''
   \<and> searchCodebase (\<lambda>p. if p = ''project.codebase'' then File ''# File: a''
                         else if p = ''dir'' then Unreadable ''EISDIR'' else Missing)
      (Some []) None None
     = Returned ''Parameter 'file' is required.''
   \<and> searchCodebase (\<lambda>p. if p = ''project.codebase'' then File ''# File: a''
                         else if p = ''dir'' then Unreadable ''EISDIR'' else Missing)
      (Some ''b'') None None
     = Returned ''File "b" not found in codebase.''
   \<and> searchCodebase (\<lambda>p. if p = ''project.codebase'' then File ''# File: a''
                         else if p = ''dir'' then Unreadable ''EISDIR'' else Missing)
      (Some ''b'') (Some ''dir'') None
     = Returned ''Error while extracting file: EISDIR''\<close>
proof -
  let ?fs = "\<lambda>p. if p = ''project.codebase'' then File ''# File: a''
                  else if p = ''dir'' then Unreadable ''EISDIR'' else Missing"
  have c: "codebaseFileOf (Some ''nope'') = ''nope''" "codebaseFileOf None = ''project.codebase''"
    "codebaseFileOf (Some ''dir'') = ''dir''"
    by (simp_all add: codebaseFileOf_def)
  have e: "\<not> existsSync ?fs ''nope''" "existsSync ?fs ''project.codebase''" "existsSync ?fs ''dir''"
    by (simp_all add: existsSync_def)
  have r: "readFileSync ?fs ''project.codebase'' = Inr ''# File: a''" "readFileSync ?fs ''dir'' = Inl ''EISDIR''"
    by (simp_all add: readFileSync_def)
  have p: "parseDump ''# File: a'' = [\<lparr>path = ''a'', content = []\<rparr>]"
    by (simp add: parseDump_def parseFileBlocks_def xmlMatch_def hashMatch_def
          isLineTerminator_def trim_def trimStart_def trimEnd_def isWhiteSpace_def)
  have t: "trim ''a'' = ''a''" "trim ''b'' = ''b''"
    by (simp_all add: trim_def trimStart_def trimEnd_def isWhiteSpace_def)
  have f: "findFile (parseDump ''# File: a'') ''b'' = None"
    by (simp add: p findFile_def normalizePath_def t toLowerCase_def toLowerChar_def
          upperChars_def lowerChars_def)
  have r1: "searchCodebase ?fs (Some ''b'') (Some ''nope'') None
              = Returned (''Codebase file not found: '' @ codebaseFileOf (Some ''nope''))"
    using searchCodebase_always_text[of ?fs "Some ''b''" "Some ''nope''" None, THEN conjunct2, THEN conjunct1]
      c e by simp
  have r2: "searchCodebase ?fs (Some []) None None = Returned ''Parameter 'file' is required.''"
    using searchCodebase_always_text[of ?fs "Some []" None None,
        THEN conjunct2, THEN conjunct2, THEN conjunct1] c e by simp
  have r3: \<open>searchCodebase ?fs (Some ''b'') None None = Returned (''File "'' @ ''b'' @ ''" not found in codebase.'')\<close>
    using searchCodebase_always_text[of ?fs "Some ''b''" None None,
        THEN conjunct2, THEN conjunct2, THEN conjunct2, THEN conjunct1, rule_format, of "''b''" "''# File: a''"]
      c e r f by simp
  have r4: "searchCodebase ?fs (Some ''b'') (Some ''dir'') None
              = Returned (''Error while extracting file: '' @ ''EISDIR'')"
    using searchCodebase_always_text[of ?fs "Some ''b''" "Some ''dir''" None,
        THEN conjunct2, THEN conjunct2, THEN conjunct2, THEN conjunct2, rule_format, of "''b''" "''EISDIR''"]
      c e r by simp
  show ?thesis using r1 r2 r3 r4 c by simp
qed

section \<open>The ignore file is never an empty pattern\<close>

lemma join_nonempty: "ys \<noteq> [] \<Longrightarrow> \<forall>y\<in>set ys. y \<noteq> [] \<Longrightarrow> join sep ys \<noteq> []"
  by (induction sep ys rule: join.induct) simp_all

lemma trimEnd_keeps_head: "\<not> isWhiteSpace c \<Longrightarrow> trimEnd (c # cs) = c # trimEnd cs"
  by (simp add: trimEnd_def dropWhile_append)

lemma blankOrComment_trim: "blankOrComment l \<Longrightarrow> trim l = [] \<or> startsWith (trim l) ''#''"
proof (cases "trimStart l")
  case Nil
  then show ?thesis by (simp add: trim_def trimEnd_def)
next
  case (Cons c cs)
  assume "blankOrComment l"
  then have c: "c = CHR ''#''" using Cons by (simp add: blankOrComment_def)
  then have "\<not> isWhiteSpace c" by (simp add: isWhiteSpace_def)
  then have "trim l = c # trimEnd cs" using Cons trimEnd_keeps_head by (simp add: trim_def)
  then show ?thesis using c by simp
qed

text \<open>
  Claim C9. The loader never returns the empty string as its pattern: when every line of
  the ignore file is blank or a comment it returns nothing, as it does when the file does
  not exist.
\<close>

theorem ignore_loader_no_empty_pattern:
  "getCodebaseIgnoreGlobs pathJoin fs workingDir \<noteq> Inr (Some [])
   \<and> (\<forall>dat. fs (pathJoin workingDir ''.codebaseignore'') = File dat
          \<and> list_all blankOrComment (split_nl dat) \<longrightarrow>
        getCodebaseIgnoreGlobs pathJoin fs workingDir = Inr None)
   \<and> (fs (pathJoin workingDir ''.codebaseignore'') = Missing \<longrightarrow>
        getCodebaseIgnoreGlobs pathJoin fs workingDir = Inr None)"
proof (intro conjI allI impI)
  show "getCodebaseIgnoreGlobs pathJoin fs workingDir \<noteq> Inr (Some [])"
  proof (cases "readFileSync fs (pathJoin workingDir ''.codebaseignore'')")
    case (Inl msg)
    then show ?thesis by (simp add: getCodebaseIgnoreGlobs_def Let_def)
  next
    case (Inr dat)
    let ?kept = "filter (\<lambda>line. line \<noteq> [] \<and> \<not> startsWith line ''#'') (map trim (split_nl dat))"
    have "?kept \<noteq> [] \<Longrightarrow> join '','' ?kept \<noteq> []"
      by (rule join_nonempty) simp_all
    then show ?thesis using Inr by (auto simp: getCodebaseIgnoreGlobs_def Let_def)
  qed
next
  fix dat
  assume a: "fs (pathJoin workingDir ''.codebaseignore'') = File dat
          \<and> list_all blankOrComment (split_nl dat)"
  then have "\<forall>l\<in>set (split_nl dat). trim l = [] \<or> startsWith (trim l) ''#''"
    using blankOrComment_trim by (simp add: list_all_iff)
  then have "filter (\<lambda>line. line \<noteq> [] \<and> \<not> startsWith line ''#'') (map trim (split_nl dat)) = []"
    by (auto simp: filter_empty_conv)
  then show "getCodebaseIgnoreGlobs pathJoin fs workingDir = Inr None"
    using a by (simp add: getCodebaseIgnoreGlobs_def existsSync_def readFileSync_def)
next
  assume "fs (pathJoin workingDir ''.codebaseignore'') = Missing"
  then show "getCodebaseIgnoreGlobs pathJoin fs workingDir = Inr None"
    by (simp add: getCodebaseIgnoreGlobs_def existsSync_def)
qed

theorem ignore_loader_no_empty_pattern_witness:
  "getCodebaseIgnoreGlobs (\<lambda>d f. d @ ''/'' @ f)
      (\<lambda>p. if p = ''w/.codebaseignore'' then File (''# build'' @ [nl] @ ''  '' @ [nl]) else Missing) ''w''
     = Inr None
   \<and> getCodebaseIgnoreGlobs (\<lambda>d f. d @ ''/'' @ f)
      (\<lambda>p. if p = ''w/.codebaseignore'' then File (''# build'' @ [nl] @ ''  '' @ [nl]) else Missing) ''v''
     = Inr None"
proof -
  let ?pj = "\<lambda>d f. d @ ''/'' @ f"
  let ?fs = "\<lambda>p. if p = ''w/.codebaseignore'' then File (''# build'' @ [nl] @ ''  '' @ [nl]) else Missing"
  have a: "?fs (?pj ''w'' ''.codebaseignore'') = File (''# build'' @ [nl] @ ''  '' @ [nl])"
    by simp
  have b: "list_all blankOrComment (split_nl (''# build'' @ [nl] @ ''  '' @ [nl]))"
    by (simp add: blankOrComment_def trimStart_def isWhiteSpace_def)
  have m: "?fs (?pj ''v'' ''.codebaseignore'') = Missing"
    by simp
  have r1: "getCodebaseIgnoreGlobs ?pj ?fs ''w'' = Inr None"
    using ignore_loader_no_empty_pattern[of ?pj ?fs "''w''", THEN conjunct2, THEN conjunct1] a b by blast
  have r2: "getCodebaseIgnoreGlobs ?pj ?fs ''v'' = Inr None"
    using ignore_loader_no_empty_pattern[of ?pj ?fs "''v''", THEN conjunct2, THEN conjunct2] m by blast
  show ?thesis using r1 r2 by simp
qed

section \<open>The summary block\<close>

lemma markerAt_Suc: "markerAt (c # cs) (Suc i) = markerAt cs i"
  by (simp add: markerAt_def)

lemma markerAt_0:
  "markerAt s 0 = (startsWith s ''Pack Summary:'' \<or> startsWith s ''Total Files:'')"
  by (simp add: markerAt_def)

lemma markerAt_Nil: "\<not> markerAt [] i"
  by (simp add: markerAt_def)

lemma summaryStart_range:
  "summaryStart s = Some m \<Longrightarrow> m = ''Pack Summary:'' \<or> m = ''Total Files:''"
  by (induction s) (auto split: if_splits)

lemma summaryStart_first_marker:
  "markerAt s i \<Longrightarrow> \<forall>j<i. \<not> markerAt s j \<Longrightarrow> \<exists>m. summaryStart s = Some m \<and> indexOf s m = int i"
proof (induction s arbitrary: i)
  case Nil
  then show ?case using markerAt_Nil by blast
next
  case (Cons c cs)
  show ?case
  proof (cases i)
    case 0
    then have "startsWith (c # cs) ''Pack Summary:'' \<or> startsWith (c # cs) ''Total Files:''"
      using Cons.prems(1) markerAt_0 by blast
    then show ?thesis using 0 by auto
  next
    case (Suc k)
    then have n0: "\<not> markerAt (c # cs) 0" using Cons.prems(2) by blast
    then have np: "\<not> startsWith (c # cs) ''Pack Summary:''" and nt: "\<not> startsWith (c # cs) ''Total Files:''"
      using markerAt_0 by blast+
    have mk: "markerAt cs k" using Cons.prems(1) Suc markerAt_Suc by blast
    have "\<forall>j<k. \<not> markerAt cs j"
    proof (intro allI impI)
      fix j assume "j < k"
      then have "\<not> markerAt (c # cs) (Suc j)" using Cons.prems(2) Suc by simp
      then show "\<not> markerAt cs j" using markerAt_Suc by blast
    qed
    then obtain m where m: "summaryStart cs = Some m" "indexOf cs m = int k"
      using Cons.IH[OF mk] by blast
    then have "m = ''Pack Summary:'' \<or> m = ''Total Files:''" using summaryStart_range by blast
    then have nm: "\<not> startsWith (c # cs) m" using np nt by blast
    have s: "summaryStart (c # cs) = Some m"
      by (simp only: summaryStart.simps np nt if_False m(1))
    have "indexOf (c # cs) m = indexShift (int k)"
      by (simp only: indexOf.simps nm if_False m(2))
    then have "indexOf (c # cs) m = int i" using Suc by (simp add: indexShift_def)
    then show ?thesis using s by blast
  qed
qed

lemma summaryStart_no_marker: "\<forall>i. \<not> markerAt s i \<Longrightarrow> summaryStart s = None"
proof (induction s)
  case Nil
  show ?case by simp
next
  case (Cons c cs)
  have "\<not> markerAt (c # cs) 0" using Cons.prems by blast
  then have np: "\<not> startsWith (c # cs) ''Pack Summary:''" and nt: "\<not> startsWith (c # cs) ''Total Files:''"
    using markerAt_0 by blast+
  have "\<forall>i. \<not> markerAt cs i" using Cons.prems markerAt_Suc by blast
  then have "summaryStart cs = None" by (rule Cons.IH)
  then show ?case by (simp only: summaryStart.simps np nt if_False)
qed

lemma trimEnd_prefix: "\<exists>w. s = trimEnd s @ w"
proof -
  have "trimEnd s @ rev (takeWhile isWhiteSpace (rev s))
          = rev (takeWhile isWhiteSpace (rev s) @ dropWhile isWhiteSpace (rev s))"
    by (simp only: trimEnd_def rev_append)
  also have "\<dots> = s"
    by (simp only: takeWhile_dropWhile_id rev_rev_ident)
  finally show ?thesis by metis
qed

lemma trimStart_trim: "trimStart (trim s) = trim s"
proof (cases "trim s")
  case Nil
  then show ?thesis by (simp add: trimStart_def)
next
  case (Cons c cs)
  obtain w where w: "trimStart s = trimEnd (trimStart s) @ w" using trimEnd_prefix by blast
  then have "trimStart s = c # cs @ w" using Cons by (simp add: trim_def)
  then have "hd (dropWhile isWhiteSpace s) = c" and "dropWhile isWhiteSpace s \<noteq> []"
    by (simp_all add: trimStart_def)
  then have "\<not> isWhiteSpace c" using hd_dropWhile by blast
  then show ?thesis using Cons by (simp add: trimStart_def)
qed

lemma trim_idem: "trim (trim s) = trim s"
proof -
  have "trimEnd (trim s) = trim s" by (simp add: trim_def trimEnd_def)
  then show ?thesis using trimStart_trim[of s] by (simp add: trim_def[of "trim s"])
qed

lemma jsSliceFrom_nat: "jsSliceFrom xs (int i) = drop i xs"
proof -
  have "nat (min (int i) (int (length xs))) = min i (length xs)" by linarith
  moreover have "drop (min i (length xs)) xs = drop i xs" by (cases "i \<le> length xs") (simp_all add: min_def)
  ultimately show ?thesis by (simp add: jsSliceFrom_def Let_def)
qed

lemma jsSliceFrom_last20: "jsSliceFrom xs (- 20) = drop (length xs - 20) xs"
proof -
  have "nat (max (int (length xs) + - 20) 0) = length xs - 20" by linarith
  then show ?thesis by (simp add: jsSliceFrom_def Let_def)
qed

lemma trim_noiseFilter: "trim (noiseFilter output) = noiseFilter output"
  by (simp add: noiseFilter_def trim_idem)

text \<open>
  Claim C7. On the filtered text of a report: when one of the markers \<open>Pack Summary:\<close> and
  \<open>Total Files:\<close> occurs, the summary is the text from the first position where a marker
  starts to the end, trimmed; when neither occurs, the summary is the last 20 lines of the
  filtered text (all of them when there are fewer), joined by line feeds.
\<close>

theorem summary_from_first_marker_or_last_lines:
  "(\<forall>i. markerAt (noiseFilter output) i \<and> (\<forall>j<i. \<not> markerAt (noiseFilter output) j) \<longrightarrow>
        summaryBlock (noiseFilter output) = trim (drop i (noiseFilter output)))
   \<and> ((\<forall>i. \<not> markerAt (noiseFilter output) i) \<longrightarrow>
        summaryBlock (noiseFilter output)
          = join [nl] (drop (length (split_nl (noiseFilter output)) - 20) (split_nl (noiseFilter output))))"
proof (intro conjI allI impI)
  fix i
  assume "markerAt (noiseFilter output) i \<and> (\<forall>j<i. \<not> markerAt (noiseFilter output) j)"
  then obtain m where "summaryStart (noiseFilter output) = Some m" "indexOf (noiseFilter output) m = int i"
    using summaryStart_first_marker[of "noiseFilter output" i] by blast
  then show "summaryBlock (noiseFilter output) = trim (drop i (noiseFilter output))"
    by (simp add: summaryBlock_def jsSliceFrom_nat)
next
  assume "\<forall>i. \<not> markerAt (noiseFilter output) i"
  then have "summaryStart (noiseFilter output) = None" by (rule summaryStart_no_marker)
  then show "summaryBlock (noiseFilter output)
          = join [nl] (drop (length (split_nl (noiseFilter output)) - 20) (split_nl (noiseFilter output)))"
    by (simp add: summaryBlock_def trim_noiseFilter jsSliceFrom_last20)
qed

lemma summaryStart_None_no_marker: "summaryStart s = None \<Longrightarrow> \<not> markerAt s i"
proof (induction s arbitrary: i)
  case Nil
  show ?case by (rule markerAt_Nil)
next
  case (Cons c cs)
  have n: "\<not> startsWith (c # cs) ''Pack Summary:'' \<and> \<not> startsWith (c # cs) ''Total Files:''"
    using Cons.prems by (auto split: if_splits)
  then have r: "summaryStart cs = None"
    using Cons.prems by (auto split: if_splits)
  show ?case
  proof (cases i)
    case 0
    then show ?thesis using n markerAt_0 by blast
  next
    case (Suc k)
    then show ?thesis using Cons.IH[OF r, of k] markerAt_Suc by blast
  qed
qed

theorem summary_from_first_marker_or_last_lines_witness:
  "summaryBlock (noiseFilter (''Repomix v1'' @ [nl] @ ''ab'' @ [nl] @ ''Total Files: 3 '')) = ''Total Files: 3''
   \<and> summaryBlock (noiseFilter (''x'' @ [nl] @ ''y'')) = ''x'' @ [nl] @ ''y''"
proof -
  let ?o1 = "''Repomix v1'' @ [nl] @ ''ab'' @ [nl] @ ''Total Files: 3 ''"
  let ?o2 = "''x'' @ [nl] @ ''y''"
  have l: "toLowerCase ''Repomix v1'' = ''repomix v1''" "toLowerCase ''ab'' = ''ab''"
    "toLowerCase ''Total Files: 3 '' = ''total files: 3 ''" "toLowerCase ''x'' = ''x''" "toLowerCase ''y'' = ''y''"
    by (simp_all add: toLowerCase_def toLowerChar_def upperChars_def lowerChars_def)
  have f1: "noiseFilter ?o1 = ''ab'' @ [nl] @ ''Total Files: 3''"
    by (simp add: noiseFilter_def l trim_def trimStart_def trimEnd_def isWhiteSpace_def)
  have f2: "noiseFilter ?o2 = ''x'' @ [nl] @ ''y''"
    by (simp add: noiseFilter_def l trim_def trimStart_def trimEnd_def isWhiteSpace_def)
  have m1: "markerAt (noiseFilter ?o1) 3 \<and> (\<forall>j<3. \<not> markerAt (noiseFilter ?o1) j)"
    unfolding f1 by (simp add: markerAt_def numeral_3_eq_3 less_Suc_eq)
  have "summaryStart (noiseFilter ?o2) = None"
    unfolding f2 by simp
  then have m2: "\<forall>i. \<not> markerAt (noiseFilter ?o2) i"
    using summaryStart_None_no_marker by blast
  have t: "trim (drop 3 (''ab'' @ [nl] @ ''Total Files: 3'')) = ''Total Files: 3''"
    by (simp add: trim_def trimStart_def trimEnd_def isWhiteSpace_def)
  have r1: "summaryBlock (noiseFilter ?o1) = trim (drop 3 (noiseFilter ?o1))"
    using summary_from_first_marker_or_last_lines[of ?o1, THEN conjunct1] m1 by blast
  have r2: "summaryBlock (noiseFilter ?o2)
              = join [nl] (drop (length (split_nl (noiseFilter ?o2)) - 20) (split_nl (noiseFilter ?o2)))"
    using summary_from_first_marker_or_last_lines[of ?o2, THEN conjunct2] m2 by blast
  have j: "join [nl] (drop (length (split_nl (''x'' @ [nl] @ ''y'')) - 20) (split_nl (''x'' @ [nl] @ ''y'')))
             = ''x'' @ [nl] @ ''y''"
    by simp
  show ?thesis using r1 r2 t j unfolding f1 f2 by simp
qed

end
